theory Spec2Isabelle
  imports Main "HOL-Library.Word"
begin

section \<open>Data model of the template\_sql output plugin\<close>

text \<open>
  Values carried by a metric or by the configured defaults have Go type \<open>any\<close>. The
  dynamic types that the plugin distinguishes are \<open>int64\<close>, \<open>uint64\<close>, \<open>float64\<close>,
  \<open>string\<close> and \<open>bool\<close>; \<open>time.Time\<close> is what \<open>metric.Time()\<close> yields. A
  \<open>float64\<close> is carried as its 64 bits (no arithmetic is done on it), an instant as an
  integer, and any other dynamic type as an opaque tag.
\<close>

datatype gvalue =
    VInt64 "64 word"
  | VUint64 "64 word"
  | VFloat64 "64 word"
  | VString string
  | VBool bool
  | VTime int
  | VOther nat

record ConvertStruct =
  Integer :: string
  Real :: string
  Text :: string
  Timestamp :: string
  Defaultvalue :: string
  Unsigned :: string
  Bool :: string
  ConversionStyle :: string

text \<open>
  The plugin's configuration. A Go map is kept as the list of its entries, in the order in
  which one \<open>range\<close> loop visits them; Go leaves that order unspecified, and the keys of a
  map are distinct. The logger and the database handle are outside the model: what is
  logged is returned by the function that logs.
\<close>

record SQL =
  Driver :: string
  DataSourceName :: string
  InitSQL :: string
  Queries :: "string list"
  DefaultValues :: "(string \<times> gvalue) list"
  Convert :: ConvertStruct
  ConnectionMaxIdleTime :: "64 word"
  ConnectionMaxLifetime :: "64 word"
  ConnectionMaxIdle :: int
  ConnectionMaxOpen :: int

text \<open>What the plugin reads of a \<open>telegraf.Metric\<close>.\<close>

record Metric =
  Name :: string
  Time :: int
  Tags :: "(string \<times> string) list"
  Fields :: "(string \<times> gvalue) list"

text \<open>A call \<open>p.Log.Errorf(format, args...)\<close>.\<close>

datatype log_call = Errorf string "gvalue list"

definition newSQL :: SQL where
  "newSQL =
     \<lparr> Driver = [], DataSourceName = [], InitSQL = [], Queries = [], DefaultValues = [],
       Convert = \<lparr> Integer = ''INT'', Real = ''DOUBLE'', Text = ''TEXT'',
                   Timestamp = ''TIMESTAMP'', Defaultvalue = ''TEXT'',
                   Unsigned = ''UNSIGNED'', Bool = ''BOOL'',
                   ConversionStyle = ''unsigned_suffix'' \<rparr>,
       ConnectionMaxIdleTime = 0, ConnectionMaxLifetime = 0,
       ConnectionMaxIdle = 2, ConnectionMaxOpen = 0 \<rparr>"

section \<open>Quoting of identifiers\<close>

text \<open>
  \<open>strings.Map\<close> decodes its argument rune by rune and writes the mapped runes, so the
  quoting functions are modelled on the sequence of runes of the string (an invalid byte
  is seen by the mapping as \<open>U+FFFD\<close>). A rune is Go's \<open>int32\<close>; comparisons are signed.
\<close>

type_synonym rune = "32 word"

abbreviation dquote :: rune where "dquote \<equiv> 0x22"
abbreviation underscore :: rune where "underscore \<equiv> 0x5F"

text \<open>The mapping passed to \<open>strings.Map\<close> in \<open>sanitizeQuoted\<close>.\<close>

definition whitelist :: "rune \<Rightarrow> rune" where
  "whitelist r = (if 0x0001 \<le>s r \<and> r \<le>s 0xFFFF then r else underscore)"

text \<open>\<open>strings.Map\<close>: a negative result drops the rune.\<close>

definition strings_Map :: "(rune \<Rightarrow> rune) \<Rightarrow> rune list \<Rightarrow> rune list" where
  "strings_Map mapping s = filter (\<lambda>r. 0 \<le>s r) (map mapping s)"

definition sanitizeQuoted :: "rune list \<Rightarrow> rune list" where
  "sanitizeQuoted in_str = strings_Map whitelist in_str"

text \<open>
  \<open>strings.ReplaceAll(s, old, new)\<close>: the non-overlapping occurrences of \<open>old\<close> are
  replaced from left to right; an empty \<open>old\<close> matches before every rune and at the end.
  The double quote is one byte that is part of the encoding of no other rune, so replacing
  it in the bytes of a string is replacing it in the runes.
\<close>

fun replace_empty :: "'a list \<Rightarrow> 'a list \<Rightarrow> 'a list" where
  "replace_empty [] new = new"
| "replace_empty (c # cs) new = new @ c # replace_empty cs new"

function strings_ReplaceAll :: "'a list \<Rightarrow> 'a list \<Rightarrow> 'a list \<Rightarrow> 'a list" where
  "strings_ReplaceAll s old new =
     (if old = [] then replace_empty s new
      else if s = [] then []
      else if take (length old) s = old
        then new @ strings_ReplaceAll (drop (length old) s) old new
      else hd s # strings_ReplaceAll (tl s) old new)"
  by pat_completeness auto
termination
  by (relation "measure (\<lambda>(s, old, new). length s)") auto

definition quoteIdent :: "rune list \<Rightarrow> rune list" where
  "quoteIdent name =
     [dquote] @ strings_ReplaceAll (sanitizeQuoted name) [dquote] [dquote, dquote] @ [dquote]"

text \<open>
  The reading of \<open>quoteIdent\<close> given in the specification: only the runes below
  \<open>U+0001\<close> become an underscore, every double quote is doubled, and the result is put
  between double quotes.
\<close>

definition below_U0001_to_underscore :: "rune \<Rightarrow> rune" where
  "below_U0001_to_underscore r = (if r <s 0x0001 then underscore else r)"

definition double_quote_rune :: "rune \<Rightarrow> rune list" where
  "double_quote_rune r = (if r = dquote then [dquote, dquote] else [r])"

definition quoteIdent_spec :: "rune list \<Rightarrow> rune list" where
  "quoteIdent_spec s =
     dquote # concat (map double_quote_rune (map below_U0001_to_underscore s)) @ [dquote]"

text \<open>
  Modelled from the spec: the inverse transformation \<open>unquote\<close>, which is not a function
  of the plugin. It strips the outer double quotes and collapses each doubled double
  quote back to one; a string that is not between double quotes has no unquoting.
\<close>

fun collapse_quotes :: "rune list \<Rightarrow> rune list" where
  "collapse_quotes (a # b # rest) =
     (if a = dquote \<and> b = dquote then dquote # collapse_quotes rest
      else a # collapse_quotes (b # rest))"
| "collapse_quotes s = s"

definition unquote :: "rune list \<Rightarrow> rune list option" where
  "unquote s =
     (if 2 \<le> length s \<and> hd s = dquote \<and> last s = dquote
      then Some (collapse_quotes (butlast (tl s))) else None)"

text \<open>
  Modelled from the spec: the strings the round trip is claimed for. The specification
  calls printable the code points from \<open>U+0001\<close> on; the control characters are the
  general category Cc, \<open>U+0000\<close> to \<open>U+001F\<close> and \<open>U+007F\<close> to \<open>U+009F\<close>. A rune
  decoded from a string is at most \<open>U+10FFFF\<close>. This is the widest reading of
  printable: what holds for these strings holds for the strings of any narrower one.
\<close>

definition printable :: "rune \<Rightarrow> bool" where
  "printable r \<longleftrightarrow> 0x0001 \<le>s r \<and> r \<le>s 0x10FFFF"

definition control :: "rune \<Rightarrow> bool" where
  "control r \<longleftrightarrow> (0 \<le>s r \<and> r \<le>s 0x1F) \<or> (0x7F \<le>s r \<and> r \<le>s 0x9F)"

section \<open>Deriving a column type\<close>

text \<open>
  \<open>deriveDatatype\<close> returns the type name and logs; the model returns the name together
  with the calls made to the logger. \<open>datatype\<close> starts as the empty string.
\<close>

definition deriveDatatype :: "SQL \<Rightarrow> gvalue \<Rightarrow> string \<times> log_call list" where
  "deriveDatatype p v =
     (case v of
        VInt64 _ \<Rightarrow> (Integer (Convert p), [])
      | VUint64 _ \<Rightarrow>
          (if ConversionStyle (Convert p) = ''unsigned_suffix''
             then (Integer (Convert p) @ '' '' @ Unsigned (Convert p), [])
           else if ConversionStyle (Convert p) = ''literal''
             then (Unsigned (Convert p), [])
           else ([], [Errorf ''unknown conversion style: %s''
                         [VString (ConversionStyle (Convert p))]]))
      | VFloat64 _ \<Rightarrow> (Real (Convert p), [])
      | VString _ \<Rightarrow> (Text (Convert p), [])
      | VBool _ \<Rightarrow> (Bool (Convert p), [])
      | _ \<Rightarrow> (Defaultvalue (Convert p), [Errorf ''Unknown datatype: '%T' %v'' [v, v]]))"

section \<open>The value mapping of a metric\<close>

text \<open>
  The part of \<open>WriteMetric\<close> that builds \<open>valuesMap\<close> for one query: the two built-in
  keys first, then one \<open>range\<close> loop over the configured defaults, one over the tags and
  one over the fields, each storing its entries into the map.
\<close>

definition WriteMetric_valuesMap :: "SQL \<Rightarrow> Metric \<Rightarrow> (string \<rightharpoonup> gvalue)" where
  "WriteMetric_valuesMap p metric =
     (let valuesMap = Map.empty;
          valuesMap = valuesMap(''metric'' \<mapsto> VString (Name metric));
          valuesMap = valuesMap(''timestamp'' \<mapsto> VTime (Time metric));
          valuesMap = foldl (\<lambda>m (key, value). m(key \<mapsto> value)) valuesMap (DefaultValues p);
          valuesMap = foldl (\<lambda>m (tag, value). m(tag \<mapsto> VString value)) valuesMap (Tags metric);
          valuesMap = foldl (\<lambda>m (field, value). m(field \<mapsto> value)) valuesMap (Fields metric)
      in valuesMap)"

section \<open>Compiling a template\<close>

text \<open>
  A Go string is a sequence of bytes, here a \<open>string\<close>. The regular expression
  \<open>:[a-zA-Z0-9_]*\<close> is ASCII only, so it matches byte by byte: a match starts at a colon
  and takes the longest run of bytes of the class that follows it. Every colon of the
  string starts a match, since a match never contains a second colon.
\<close>

definition is_ident :: "char \<Rightarrow> bool" where
  "is_ident c \<longleftrightarrow>
     c \<in> set ''abcdefghijklmnopqrstuvwxyzABCDEFGHIJKLMNOPQRSTUVWXYZ0123456789_''"

text \<open>\<open>r.FindAllString(sql, -1)\<close>: the successive matches, from left to right.\<close>

function FindAllString :: "string \<Rightarrow> string list" where
  "FindAllString [] = []"
| "FindAllString (c # cs) =
     (if c = CHR '':''
      then (c # takeWhile is_ident cs) # FindAllString (dropWhile is_ident cs)
      else FindAllString cs)"
  by pat_completeness auto
termination
  by (relation "measure length") (auto simp: length_dropWhile_le less_Suc_eq_le)

text \<open>
  \<open>r.ReplaceAllStringFunc(sql, repl)\<close>: every match is replaced by what \<open>repl\<close> returns
  for it, the calls being made from left to right. The closure passed by \<open>generateQuery\<close>
  increments a captured counter, so \<open>repl\<close> takes and returns the captured state.
\<close>

function ReplaceAllStringFunc ::
  "string \<Rightarrow> (string \<Rightarrow> 's \<Rightarrow> string \<times> 's) \<Rightarrow> 's \<Rightarrow> string \<times> 's" where
  "ReplaceAllStringFunc [] repl st = ([], st)"
| "ReplaceAllStringFunc (c # cs) repl st =
     (if c = CHR '':''
      then (case repl (c # takeWhile is_ident cs) st of
              (out, st') \<Rightarrow>
                (case ReplaceAllStringFunc (dropWhile is_ident cs) repl st' of
                   (rest, st'') \<Rightarrow> (out @ rest, st'')))
      else (case ReplaceAllStringFunc cs repl st of
              (rest, st') \<Rightarrow> (c # rest, st')))"
  by pat_completeness auto
termination
  by (relation "measure (\<lambda>(s, repl, st). length s)")
     (auto simp: length_dropWhile_le less_Suc_eq_le)

text \<open>
  \<open>r.ReplaceAllString(sql, repl)\<close> for a replacement text without \<open>$\<close>, which is
  inserted as it is.
\<close>

definition ReplaceAllString :: "string \<Rightarrow> string \<Rightarrow> string" where
  "ReplaceAllString src repl = fst (ReplaceAllStringFunc src (\<lambda>_ u. (repl, u)) ())"

text \<open>
  \<open>strconv.Itoa\<close>: the decimal digits, with a minus sign for a negative number. The
  counter \<open>i\<close> counts matches, so it stays far below the range of Go's \<open>int\<close> and is
  an \<open>int\<close> here.
\<close>

function decimal :: "nat \<Rightarrow> string" where
  "decimal n =
     (if n < 10 then [''0123456789'' ! n]
      else decimal (n div 10) @ [''0123456789'' ! (n mod 10)])"
  by pat_completeness auto
termination
  by (relation "measure id") auto

definition Itoa :: "int \<Rightarrow> string" where
  "Itoa i = (if i < 0 then CHR ''-'' # decimal (nat (- i)) else decimal (nat i))"

text \<open>\<open>fmt.Errorf("%v not found in metric", key)\<close>, the only error of \<open>generateQuery\<close>.\<close>

datatype error = NotFoundInMetric string

text \<open>
  The loop over \<open>matchs\<close>: the key is the match without its colon; a key that is not in
  the map ends the function with the error, any other appends its value to \<open>values\<close>.
\<close>

fun collect_values ::
  "(string \<rightharpoonup> gvalue) \<Rightarrow> string list \<Rightarrow> gvalue list \<Rightarrow> error + gvalue list" where
  "collect_values valuesMap [] values = Inr values"
| "collect_values valuesMap (match # matchs) values =
     (let key = drop 1 match in
      case valuesMap key of
        None \<Rightarrow> Inl (NotFoundInMetric key)
      | Some v \<Rightarrow> collect_values valuesMap matchs (values @ [v]))"

text \<open>The closure of the \<open>pgx\<close> branch: \<open>i++\<close>, then \<open>"$" + strconv.Itoa(i)\<close>.\<close>

definition pgx_placeholder :: "string \<Rightarrow> int \<Rightarrow> string \<times> int" where
  "pgx_placeholder s i = (let i = i + 1 in (''$'' @ Itoa i, i))"

text \<open>
  \<open>generateQuery\<close> returns the triple \<open>(sql, values, err)\<close>; a \<open>nil\<close> slice is the empty
  list and a \<open>nil\<close> error is \<open>None\<close>.
\<close>

definition generateQuery ::
  "SQL \<Rightarrow> string \<Rightarrow> (string \<rightharpoonup> gvalue) \<Rightarrow> string \<times> gvalue list \<times> error option" where
  "generateQuery p sql valuesMap =
     (let matchs = FindAllString sql in
      case collect_values valuesMap matchs [] of
        Inl err \<Rightarrow> ([], [], Some err)
      | Inr values \<Rightarrow>
          (if Driver p = ''pgx''
           then (fst (ReplaceAllStringFunc sql pgx_placeholder 0), values, None)
           else (ReplaceAllString sql ''?'', values, None)))"

text \<open>
  A template written out as its parts: the text before the first placeholder, then for
  every placeholder its key and the text that follows it up to the next placeholder.
  \<open>weave\<close> puts a list of tokens between the texts; the template has the token \<open>:key\<close>
  at each place.
\<close>

fun weave :: "string \<Rightarrow> (string \<times> string) list \<Rightarrow> string" where
  "weave t0 [] = t0"
| "weave t0 ((token, t) # rest) = t0 @ token @ weave t rest"

definition template :: "string \<Rightarrow> (string \<times> string) list \<Rightarrow> string" where
  "template t0 kts = weave t0 (map (\<lambda>(key, t). (CHR '':'' # key, t)) kts)"

text \<open>
  The parts are those of the scan when no text contains a colon, every key is made of
  characters of the class, and the text after a key does not go on with such a character.
\<close>

definition plain :: "string \<Rightarrow> bool" where
  "plain t \<longleftrightarrow> list_all (\<lambda>c. c \<noteq> CHR '':'') t"

definition ends_key :: "string \<Rightarrow> bool" where
  "ends_key t \<longleftrightarrow> (case t of [] \<Rightarrow> True | c # _ \<Rightarrow> \<not> is_ident c)"

definition parts_ok :: "string \<Rightarrow> (string \<times> string) list \<Rightarrow> bool" where
  "parts_ok t0 kts \<longleftrightarrow>
     plain t0 \<and> list_all (\<lambda>(key, t). list_all is_ident key \<and> plain t \<and> ends_key t) kts"

text \<open>The markers of the \<open>pgx\<close> dialect for \<open>n\<close> placeholders: \<open>$1\<close>, ..., \<open>$n\<close>.\<close>

definition dollar_markers :: "nat \<Rightarrow> string list" where
  "dollar_markers n = map (\<lambda>k. ''$'' @ Itoa (int k)) [1..<Suc n]"

section \<open>The state around an invocation\<close>

text \<open>
  What a method of the plugin can reach besides its own local variables: the struct behind
  the receiver \<open>p\<close>, where the templates \<open>Queries\<close> and the driver live; the map object
  behind an argument such as \<open>valuesMap\<close>, which Go passes by reference; what has been
  sent to the logger \<open>p.Log\<close>; and the statements executed on the database \<open>p.db\<close>. An
  action takes this state and returns its result with the state it leaves.
\<close>

record world =
  plugin :: SQL
  values_map :: "string \<rightharpoonup> gvalue"
  logged :: "log_call list"
  executed :: "(string \<times> gvalue list) list"

type_synonym 'a action = "world \<Rightarrow> 'a \<times> world"

text \<open>The read \<open>p.Driver\<close> and the read \<open>value, ok := valuesMap[key]\<close>.\<close>

definition read_Driver :: "string action" where
  "read_Driver w = (Driver (plugin w), w)"

definition map_index :: "string \<Rightarrow> gvalue option action" where
  "map_index key w = (values_map w key, w)"

text \<open>
  \<open>generateQuery\<close> as the sequence of its statements on this state. The string \<open>sql\<close>
  is a value: the assignment to the parameter \<open>sql\<close> changes the copy of the callee, and
  \<open>values\<close> and the counter \<open>i\<close> are local to the invocation.
\<close>

fun collect_values_st :: "string list \<Rightarrow> gvalue list \<Rightarrow> (error + gvalue list) action" where
  "collect_values_st [] values w = (Inr values, w)"
| "collect_values_st (match # matchs) values w =
     (let key = drop 1 match in
      case map_index key w of
        (None, w') \<Rightarrow> (Inl (NotFoundInMetric key), w')
      | (Some v, w') \<Rightarrow> collect_values_st matchs (values @ [v]) w')"

definition generateQuery_st ::
  "string \<Rightarrow> (string \<times> gvalue list \<times> error option) action" where
  "generateQuery_st sql w =
     (let matchs = FindAllString sql in
      case collect_values_st matchs [] w of
        (Inl err, w') \<Rightarrow> (([], [], Some err), w')
      | (Inr values, w') \<Rightarrow>
          (case read_Driver w' of
             (driver, w'') \<Rightarrow>
               if driver = ''pgx''
               then ((fst (ReplaceAllStringFunc sql pgx_placeholder 0), values, None), w'')
               else ((ReplaceAllString sql ''?'', values, None), w'')))"

section \<open>Properties of the quoting of identifiers\<close>

declare strings_ReplaceAll.simps [simp del]

lemma ReplaceAll_single:
  "strings_ReplaceAll s [q] [q, q] = concat (map (\<lambda>r. if r = q then [q, q] else [r]) s)"
proof (induction s)
  case Nil
  show ?case by (subst strings_ReplaceAll.simps) simp
next
  case (Cons a s)
  show ?case by (subst strings_ReplaceAll.simps) (simp add: Cons)
qed

lemma strings_Map_whitelist: "strings_Map whitelist s = map whitelist s"
  unfolding strings_Map_def
  by (rule filter_True) (auto simp: whitelist_def word_sle_eq)

lemma whitelist_alt:
  "whitelist r = (if r <s 0x0001 \<or> 0xFFFF <s r then underscore else r)"
  by (auto simp: whitelist_def word_sle_eq word_sless_alt)

lemma quoteIdent_runes:
  "quoteIdent s = dquote # concat (map double_quote_rune (map whitelist s)) @ [dquote]"
  by (simp add: quoteIdent_def sanitizeQuoted_def strings_Map_whitelist ReplaceAll_single
      double_quote_rune_def comp_def cong: map_cong)

lemma collapse_double: "collapse_quotes (concat (map double_quote_rune s)) = s"
proof (induction s)
  case Nil
  show ?case by simp
next
  case (Cons a s)
  show ?case
  proof (cases "a = dquote")
    case True
    then show ?thesis using Cons by (simp add: double_quote_rune_def)
  next
    case False
    have step: "collapse_quotes (a # ys) = a # collapse_quotes ys" for ys
      using False by (cases ys) simp_all
    have "concat (map double_quote_rune (a # s)) = a # concat (map double_quote_rune s)"
      using False by (simp add: double_quote_rune_def)
    then show ?thesis using Cons step by simp
  qed
qed

text \<open>
  C5, as stated: \<open>quoteIdent\<close> replaces by an underscore exactly the runes below \<open>U+0001\<close>,
  doubles the double quotes and wraps the result in double quotes. The code also replaces
  every rune above \<open>U+FFFF\<close>: for the one-rune string \<open>U+1F600\<close> it returns \<open>"_"\<close>
  where the stated transformation keeps the rune.
\<close>

theorem quoteIdent_spec_counterexample:
  "quoteIdent [0x1F600] = [dquote, underscore, dquote]
   \<and> quoteIdent_spec [0x1F600] = [dquote, 0x1F600, dquote]"
  by (simp add: quoteIdent_runes whitelist_def quoteIdent_spec_def double_quote_rune_def
      below_U0001_to_underscore_def word_sless_alt word_sle_eq)

text \<open>
  C5, amended: for every string, \<open>quoteIdent\<close> replaces by an underscore exactly the runes
  below \<open>U+0001\<close> or above \<open>U+FFFF\<close>, keeps every other rune, then doubles every double
  quote and wraps the whole in double quotes.
\<close>

theorem quoteIdent_closed_form:
  "quoteIdent s =
     dquote # concat (map double_quote_rune
        (map (\<lambda>r. if r <s 0x0001 \<or> 0xFFFF <s r then underscore else r) s)) @ [dquote]"
  by (simp add: quoteIdent_runes whitelist_alt cong: map_cong)

text \<open>
  C7, as stated: \<open>unquote (quoteIdent s)\<close> is \<open>s\<close> for every string of printable
  characters without control characters. \<open>U+1F600\<close> is printable and is no control
  character, and the string made of it is quoted as \<open>"_"\<close>, which unquotes to \<open>_\<close>.
\<close>

theorem unquote_quoteIdent_counterexample:
  "printable 0x1F600 \<and> \<not> control 0x1F600
   \<and> unquote (quoteIdent [0x1F600]) = Some [underscore]
   \<and> unquote (quoteIdent [0x1F600]) \<noteq> Some [0x1F600]"
  by (simp add: printable_def control_def quoteIdent_runes whitelist_def unquote_def
      double_quote_rune_def word_sle_eq word_sless_alt)

text \<open>
  C7, amended: for every string \<open>s\<close> of printable characters without control characters
  whose code points are at most \<open>U+FFFF\<close>, \<open>quoteIdent s\<close> is \<open>s\<close> with each of its
  double quotes doubled and every other character kept, between two double quotes, and
  \<open>unquote (quoteIdent s)\<close> is \<open>s\<close>.
\<close>

theorem unquote_quoteIdent:
  assumes "\<forall>r\<in>set s. printable r \<and> \<not> control r \<and> r \<le>s 0xFFFF"
  shows "quoteIdent s =
           dquote # concat (map (\<lambda>r. if r = dquote then [dquote, dquote] else [r]) s) @ [dquote]
    \<and> unquote (quoteIdent s) = Some s"
proof -
  have "map whitelist s = s"
    using assms by (intro map_idI) (auto simp: printable_def whitelist_def)
  then have q: "quoteIdent s = dquote # concat (map double_quote_rune s) @ [dquote]"
    by (simp add: quoteIdent_runes)
  have d: "map double_quote_rune s = map (\<lambda>r. if r = dquote then [dquote, dquote] else [r]) s"
    by (simp add: double_quote_rune_def)
  have "unquote (quoteIdent s) = Some s"
    unfolding q by (simp add: unquote_def collapse_double)
  with q d show ?thesis by simp
qed

theorem unquote_quoteIdent_witness:
  "list_all (\<lambda>r. printable r \<and> \<not> control r \<and> r \<le>s 0xFFFF) [0x61, 0x22, 0x62]
   \<and> quoteIdent [0x61, 0x22, 0x62] = [0x22, 0x61, 0x22, 0x22, 0x62, 0x22]
   \<and> unquote (quoteIdent [0x61, 0x22, 0x62]) = Some [0x61, 0x22, 0x62]"
proof -
  have h: "\<forall>r\<in>set [0x61, 0x22, 0x62]. printable r \<and> \<not> control r \<and> r \<le>s 0xFFFF"
    by (simp add: printable_def control_def word_sle_eq)
  note th = unquote_quoteIdent [OF h]
  have l: "list_all (\<lambda>r. printable r \<and> \<not> control r \<and> r \<le>s 0xFFFF) [0x61, 0x22, 0x62]"
    using h by (simp only: list_all_iff)
  have q: "quoteIdent [0x61, 0x22, 0x62] = [0x22, 0x61, 0x22, 0x22, 0x62, 0x22]"
    using th [THEN conjunct1] by simp
  from l q th [THEN conjunct2] show ?thesis by (intro conjI)
qed

section \<open>Properties of the derivation of column types\<close>

text \<open>For a value of an unrecognized kind the default type name is returned, and logged.\<close>

lemma deriveDatatype_unknown_kind:
  "deriveDatatype p (VOther n) =
     (Defaultvalue (Convert p), [Errorf ''Unknown datatype: '%T' %v'' [VOther n, VOther n]])"
  by (simp add: deriveDatatype_def)

text \<open>
  C6: \<open>deriveDatatype\<close> is claimed to log and to return the configured default type name
  for an unrecognized conversion style as well as for an unrecognized kind of value. For
  an unsigned integer under the style \<open>suffix\<close>, with the configuration of \<open>newSQL\<close>
  otherwise, the code logs and returns the empty string; the default type name there is
  \<open>TEXT\<close>.
\<close>

theorem deriveDatatype_unknown_style:
  "deriveDatatype (newSQL\<lparr>Convert := (Convert newSQL)\<lparr>ConversionStyle := ''suffix''\<rparr>\<rparr>) (VUint64 1)
     = ([], [Errorf ''unknown conversion style: %s'' [VString ''suffix'']])
   \<and> Defaultvalue (Convert (newSQL\<lparr>Convert := (Convert newSQL)\<lparr>ConversionStyle := ''suffix''\<rparr>\<rparr>))
     = ''TEXT''"
  by (simp add: deriveDatatype_def newSQL_def)

text \<open>
  C10: for a value of type \<open>time.Time\<close>, \<open>deriveDatatype\<close> takes the default branch: it
  logs and returns the configured default type name. The timestamp entry of the conversion
  table is never read: changing it changes no result of \<open>deriveDatatype\<close>.
\<close>

theorem deriveDatatype_time:
  "deriveDatatype p (VTime t) =
     (Defaultvalue (Convert p), [Errorf ''Unknown datatype: '%T' %v'' [VTime t, VTime t]])
   \<and> deriveDatatype (p\<lparr>Convert := (Convert p)\<lparr>Timestamp := ts\<rparr>\<rparr>) v = deriveDatatype p v"
  by (simp add: deriveDatatype_def split: gvalue.split)

section \<open>Properties of the value mapping\<close>

lemma foldl_store:
  "distinct (map fst kvs) \<Longrightarrow>
   foldl (\<lambda>m (k, v). m(k \<mapsto> f v)) m0 kvs key =
     (case map_of kvs key of Some v \<Rightarrow> Some (f v) | None \<Rightarrow> m0 key)"
proof (induction kvs arbitrary: m0)
  case Nil
  show ?case by simp
next
  case (Cons kv kvs)
  obtain k v where kv: "kv = (k, v)" by (cases kv)
  from Cons.prems kv have d: "distinct (map fst kvs)" and k: "k \<notin> fst ` set kvs"
    by simp_all
  from k have none: "map_of kvs k = None"
    by (simp add: map_of_eq_None_iff)
  show ?case
    unfolding kv using Cons.IH [OF d, of "m0(k \<mapsto> f v)"] none
    by (simp split: option.split)
qed

text \<open>
  C4: the value mapping built for a metric gives every key the value of the source of
  highest priority that defines it: a field before a tag, a tag before a configured
  default, a default before the built-in keys \<open>metric\<close> and \<open>timestamp\<close>. The keys of a Go
  map are distinct, whatever the order in which the loops visit the entries.
\<close>

theorem valuesMap_precedence:
  assumes "distinct (map fst (DefaultValues p))"
    and "distinct (map fst (Tags metric))"
    and "distinct (map fst (Fields metric))"
  shows "WriteMetric_valuesMap p metric key =
    (case map_of (Fields metric) key of
       Some v \<Rightarrow> Some v
     | None \<Rightarrow>
        (case map_of (Tags metric) key of
           Some s \<Rightarrow> Some (VString s)
         | None \<Rightarrow>
            (case map_of (DefaultValues p) key of
               Some v \<Rightarrow> Some v
             | None \<Rightarrow>
                (if key = ''timestamp'' then Some (VTime (Time metric))
                 else if key = ''metric'' then Some (VString (Name metric))
                 else None))))"
  unfolding WriteMetric_valuesMap_def Let_def
    foldl_store [OF assms(3), where f = "\<lambda>v. v"]
    foldl_store [OF assms(2), where f = VString]
    foldl_store [OF assms(1), where f = "\<lambda>v. v"]
  by (simp split: option.split)

theorem valuesMap_precedence_witness:
  "WriteMetric_valuesMap
      (newSQL\<lparr>DefaultValues := [(''host'', VString ''unknown''), (''metric'', VString ''m0'')]\<rparr>)
      \<lparr>Name = ''cpu'', Time = 5, Tags = [(''host'', ''a''), (''load'', ''tag'')],
       Fields = [(''load'', VFloat64 1)]\<rparr> ''load'' = Some (VFloat64 1)
   \<and> WriteMetric_valuesMap
      (newSQL\<lparr>DefaultValues := [(''host'', VString ''unknown''), (''metric'', VString ''m0'')]\<rparr>)
      \<lparr>Name = ''cpu'', Time = 5, Tags = [(''host'', ''a''), (''load'', ''tag'')],
       Fields = [(''load'', VFloat64 1)]\<rparr> ''host'' = Some (VString ''a'')
   \<and> WriteMetric_valuesMap
      (newSQL\<lparr>DefaultValues := [(''host'', VString ''unknown''), (''metric'', VString ''m0'')]\<rparr>)
      \<lparr>Name = ''cpu'', Time = 5, Tags = [(''host'', ''a''), (''load'', ''tag'')],
       Fields = [(''load'', VFloat64 1)]\<rparr> ''metric'' = Some (VString ''m0'')
   \<and> WriteMetric_valuesMap
      (newSQL\<lparr>DefaultValues := [(''host'', VString ''unknown''), (''metric'', VString ''m0'')]\<rparr>)
      \<lparr>Name = ''cpu'', Time = 5, Tags = [(''host'', ''a''), (''load'', ''tag'')],
       Fields = [(''load'', VFloat64 1)]\<rparr> ''timestamp'' = Some (VTime 5)"
proof -
  let ?p = "newSQL\<lparr>DefaultValues := [(''host'', VString ''unknown''), (''metric'', VString ''m0'')]\<rparr>"
  let ?m = "\<lparr>Name = ''cpu'', Time = 5, Tags = [(''host'', ''a''), (''load'', ''tag'')],
       Fields = [(''load'', VFloat64 1)]\<rparr>"
  have d1: "distinct (map fst (DefaultValues ?p))" by simp
  have d2: "distinct (map fst (Tags ?m))" by simp
  have d3: "distinct (map fst (Fields ?m))" by simp
  note th = valuesMap_precedence [OF d1 d2 d3]
  show ?thesis
    using th [of "''load''"] th [of "''host''"] th [of "''metric''"] th [of "''timestamp''"]
    by simp
qed

section \<open>The scan of a template\<close>

lemma not_ident_colon [simp]: "\<not> is_ident CHR '':''"
  by (simp add: is_ident_def)

lemma takeWhile_ident_colon [simp]:
  "takeWhile is_ident (cs @ CHR '':'' # post) = takeWhile is_ident cs"
  by (induction cs) simp_all

lemma dropWhile_ident_colon [simp]:
  "dropWhile is_ident (cs @ CHR '':'' # post) = dropWhile is_ident cs @ CHR '':'' # post"
  by (induction cs) simp_all

lemma FindAllString_split:
  "FindAllString (pre @ CHR '':'' # post) = FindAllString pre @ FindAllString (CHR '':'' # post)"
proof (induction pre rule: FindAllString.induct)
  case 1
  show ?case by simp
next
  case (2 c cs)
  show ?case
  proof (cases "c = CHR '':''")
    case True
    with 2 show ?thesis by simp
  next
    case False
    with 2 show ?thesis by simp
  qed
qed

lemma ReplaceAllStringFunc_split:
  "ReplaceAllStringFunc (pre @ CHR '':'' # post) repl st =
     (case ReplaceAllStringFunc pre repl st of
        (o1, s1) \<Rightarrow> (case ReplaceAllStringFunc (CHR '':'' # post) repl s1 of
                      (o2, s2) \<Rightarrow> (o1 @ o2, s2)))"
proof (induction pre repl st rule: ReplaceAllStringFunc.induct)
  case (1 repl st)
  show ?case by (simp split: prod.split)
next
  case (2 c cs repl st)
  show ?case
  proof (cases "c = CHR '':''")
    case True
    obtain out st' where r: "repl (c # takeWhile is_ident cs) st = (out, st')"
      by (cases "repl (c # takeWhile is_ident cs) st")
    from 2(1) [OF True r [symmetric]] True r show ?thesis
      by (simp split: prod.split)
  next
    case False
    with 2(2) show ?thesis by (simp split: prod.split)
  qed
qed

lemma ends_key_takeWhile: "ends_key t \<Longrightarrow> takeWhile is_ident t = []"
  by (cases t) (simp_all add: ends_key_def)

lemma ends_key_dropWhile: "ends_key t \<Longrightarrow> dropWhile is_ident t = t"
  by (cases t) (simp_all add: ends_key_def)


lemma takeWhile_key:
  "list_all is_ident k \<Longrightarrow> takeWhile is_ident rest = [] \<Longrightarrow> takeWhile is_ident (k @ rest) = k"
  by (induction k) simp_all

lemma dropWhile_key:
  "list_all is_ident k \<Longrightarrow> takeWhile is_ident rest = [] \<Longrightarrow> dropWhile is_ident (k @ rest) = rest"
proof (induction k)
  case Nil
  have "takeWhile is_ident rest @ dropWhile is_ident rest = rest"
    by (rule takeWhile_dropWhile_id)
  with Nil show ?case by simp
next
  case (Cons a k)
  then show ?case by simp
qed

lemma FindAllString_plain: "plain t \<Longrightarrow> FindAllString t = []"
  by (induction t) (simp_all add: plain_def)

lemma ReplaceAllStringFunc_plain: "plain t \<Longrightarrow> ReplaceAllStringFunc t repl st = (t, st)"
  by (induction t) (simp_all add: plain_def)

lemma template_Nil: "template t0 [] = t0"
  by (simp add: template_def)

lemma template_Cons: "template t0 ((k, t) # kts) = t0 @ CHR '':'' # k @ template t kts"
  by (simp add: template_def)

lemma template_stops: "ends_key t \<Longrightarrow> takeWhile is_ident (template t kts) = []"
proof (cases t)
  case Nil
  then show ?thesis by (cases kts) (auto simp: template_Nil template_Cons)
next
  case (Cons c cs)
  assume "ends_key t"
  with Cons have "\<not> is_ident c" by (simp add: ends_key_def)
  with Cons show ?thesis by (cases kts) (auto simp: template_Nil template_Cons)
qed

lemma parts_ok_Cons:
  "parts_ok t0 ((k, t) # kts) \<longleftrightarrow> plain t0 \<and> list_all is_ident k \<and> ends_key t \<and> parts_ok t kts"
  by (auto simp: parts_ok_def)

lemma parts_ok_Nil: "parts_ok t0 [] \<longleftrightarrow> plain t0"
  by (simp add: parts_ok_def)

lemma FindAllString_colon_key:
  assumes "list_all is_ident k" and "takeWhile is_ident rest = []"
  shows "FindAllString (CHR '':'' # k @ rest) = (CHR '':'' # k) # FindAllString rest"
  using assms by (simp add: takeWhile_key dropWhile_key)

lemma FindAllString_template:
  "parts_ok t0 kts \<Longrightarrow> FindAllString (template t0 kts) = map (\<lambda>(k, t). CHR '':'' # k) kts"
proof (induction kts arbitrary: t0)
  case Nil
  then show ?case by (simp add: template_Nil parts_ok_Nil FindAllString_plain)
next
  case (Cons kt kts)
  obtain k t where kt: "kt = (k, t)" by (cases kt)
  from Cons.prems kt have ok: "plain t0" "list_all is_ident k" "ends_key t" "parts_ok t kts"
    by (simp_all add: parts_ok_Cons)
  have "FindAllString (template t0 (kt # kts)) =
        FindAllString t0 @ FindAllString (CHR '':'' # k @ template t kts)"
    unfolding kt template_Cons by (rule FindAllString_split)
  also have "\<dots> = (CHR '':'' # k) # FindAllString (template t kts)"
    using ok by (simp only: FindAllString_plain FindAllString_colon_key template_stops append_Nil)
  finally show ?case using Cons.IH [OF ok(4)] kt by simp
qed

lemma ReplaceAllStringFunc_colon_key:
  assumes "list_all is_ident k" and "takeWhile is_ident rest = []"
  shows "ReplaceAllStringFunc (CHR '':'' # k @ rest) repl st =
    (case repl (CHR '':'' # k) st of
       (out, st') \<Rightarrow> (case ReplaceAllStringFunc rest repl st' of
                       (r, st'') \<Rightarrow> (out @ r, st'')))"
  using assms by (simp add: takeWhile_key dropWhile_key)

lemma ReplaceAllStringFunc_template_Cons:
  assumes "parts_ok t0 ((k, t) # kts)"
  shows "ReplaceAllStringFunc (template t0 ((k, t) # kts)) repl st =
    (case repl (CHR '':'' # k) st of
       (out, st') \<Rightarrow> (case ReplaceAllStringFunc (template t kts) repl st' of
                       (r, st'') \<Rightarrow> (t0 @ out @ r, st'')))"
proof -
  from assms have ok: "plain t0" "list_all is_ident k" "ends_key t"
    by (simp_all add: parts_ok_Cons)
  show ?thesis
    unfolding template_Cons ReplaceAllStringFunc_split
    using ok
    by (simp only: ReplaceAllStringFunc_plain ReplaceAllStringFunc_colon_key template_stops)
       (simp split: prod.split)
qed

lemma upt_shift: "[Suc 0..<Suc (Suc n)] = Suc 0 # map Suc [Suc 0..<Suc n]"
proof -
  have "[Suc 0..<Suc (Suc n)] = Suc 0 # [Suc (Suc 0)..<Suc (Suc n)]"
    by (rule upt_conv_Cons) simp
  then show ?thesis by (simp only: map_Suc_upt)
qed

lemma map_upt_shift:
  "map f [Suc 0..<Suc (Suc n)] = f (Suc 0) # map (\<lambda>k. f (Suc k)) [Suc 0..<Suc n]"
  by (simp only: upt_shift list.map map_map comp_def)

lemma markers_Suc:
  "map (\<lambda>k. ''$'' @ Itoa (i + int k)) [1..<Suc (Suc n)] =
     (''$'' @ Itoa (i + 1)) # map (\<lambda>k. ''$'' @ Itoa (i + 1 + int k)) [1..<Suc n]"
  using map_upt_shift [of "\<lambda>k. ''$'' @ Itoa (i + int k)" n]
  by (simp add: algebra_simps del: upt_Suc)

lemma pgx_template:
  "parts_ok t0 kts \<Longrightarrow>
   ReplaceAllStringFunc (template t0 kts) pgx_placeholder i =
     (weave t0 (zip (map (\<lambda>k. ''$'' @ Itoa (i + int k)) [1..<Suc (length kts)]) (map snd kts)),
      i + int (length kts))"
proof (induction kts arbitrary: t0 i)
  case Nil
  then show ?case by (simp add: template_Nil parts_ok_Nil ReplaceAllStringFunc_plain)
next
  case (Cons kt kts)
  obtain k t where kt: "kt = (k, t)" by (cases kt)
  from Cons.prems kt have ok: "parts_ok t kts" by (simp add: parts_ok_Cons)
  have ih: "ReplaceAllStringFunc (template t kts) pgx_placeholder (i + 1) =
     (weave t (zip (map (\<lambda>k. ''$'' @ Itoa (i + 1 + int k)) [1..<Suc (length kts)]) (map snd kts)),
      i + 1 + int (length kts))"
    by (rule Cons.IH [OF ok])
  have "ReplaceAllStringFunc (template t0 ((k, t) # kts)) pgx_placeholder i =
     (t0 @ (''$'' @ Itoa (i + 1)) @
        weave t (zip (map (\<lambda>k. ''$'' @ Itoa (i + 1 + int k)) [1..<Suc (length kts)]) (map snd kts)),
      i + 1 + int (length kts))"
    using Cons.prems unfolding kt
    by (simp only: ReplaceAllStringFunc_template_Cons)
       (simp add: pgx_placeholder_def Let_def ih del: upt_Suc)
  also have "\<dots> = (weave t0 (zip (map (\<lambda>k. ''$'' @ Itoa (i + int k)) [1..<Suc (length ((k, t) # kts))])
                       (map snd ((k, t) # kts))), i + int (length ((k, t) # kts)))"
    by (simp only: length_Cons markers_Suc) (simp del: upt_Suc add: algebra_simps)
  finally show ?case unfolding kt .
qed

lemma const_template:
  "parts_ok t0 kts \<Longrightarrow>
   ReplaceAllStringFunc (template t0 kts) (\<lambda>_ u. (r, u)) st =
     (weave t0 (map (\<lambda>(k, t). (r, t)) kts), st)"
proof (induction kts arbitrary: t0)
  case Nil
  then show ?case by (simp add: template_Nil parts_ok_Nil ReplaceAllStringFunc_plain)
next
  case (Cons kt kts)
  obtain k t where kt: "kt = (k, t)" by (cases kt)
  from Cons.prems kt have ok: "parts_ok t kts" by (simp add: parts_ok_Cons)
  show ?case using Cons.prems Cons.IH [OF ok] unfolding kt
    by (simp only: ReplaceAllStringFunc_template_Cons) simp
qed

lemma collect_values_find:
  "collect_values m ms acc =
     (case find (\<lambda>mt. m (drop 1 mt) = None) ms of
        Some mt \<Rightarrow> Inl (NotFoundInMetric (drop 1 mt))
      | None \<Rightarrow> Inr (acc @ map (\<lambda>mt. the (m (drop 1 mt))) ms))"
  by (induction ms arbitrary: acc) (auto split: option.splits)


lemma template_shift: "template (a @ b) kts = a @ template b kts"
  by (cases kts) (auto simp: template_def)

lemma template_parts_exist: "\<exists>t0 kts. parts_ok t0 kts \<and> sql = template t0 kts"
proof (induction sql)
  case Nil
  have "parts_ok [] [] \<and> [] = template [] []"
    by (simp add: parts_ok_def plain_def template_def)
  then show ?case by blast
next
  case (Cons c cs)
  then obtain t0 kts where ok: "parts_ok t0 kts" and cs: "cs = template t0 kts"
    by blast
  show ?case
  proof (cases "c = CHR '':''")
    case True
    let ?k = "takeWhile is_ident t0" and ?t = "dropWhile is_ident t0"
    have plain_t: "plain ?t"
      using ok by (auto simp: parts_ok_def plain_def list_all_iff dest: set_dropWhileD)
    have key: "list_all is_ident ?k"
      by (auto simp: list_all_iff dest: set_takeWhileD)
    have stop: "ends_key ?t"
    proof (cases ?t)
      case Nil
      then show ?thesis by (simp only: ends_key_def list.case)
    next
      case (Cons d ds)
      then have "?t \<noteq> []" by simp
      then have "\<not> is_ident (hd ?t)" by (rule hd_dropWhile)
      with Cons show ?thesis by (simp add: ends_key_def)
    qed
    have rest: "list_all (\<lambda>(key, t). list_all is_ident key \<and> plain t \<and> ends_key t) kts"
      using ok by (simp add: parts_ok_def)
    have "parts_ok [] ((?k, ?t) # kts)"
      using plain_t key stop rest by (simp add: parts_ok_def plain_def)
    moreover have "c # cs = template [] ((?k, ?t) # kts)"
    proof -
      have "?k @ template ?t kts = template (?k @ ?t) kts"
        by (rule template_shift [symmetric])
      then show ?thesis using True cs by (simp add: template_Cons)
    qed
    ultimately show ?thesis by blast
  next
    case False
    have "parts_ok (c # t0) kts"
      using ok False by (simp add: parts_ok_def plain_def)
    moreover have "c # cs = template (c # t0) kts"
      using cs template_shift [of "[c]" t0 kts] by simp
    ultimately show ?thesis by blast
  qed
qed

lemma collect_values_template:
  "collect_values m (map (\<lambda>(k, t). CHR '':'' # k) kts) acc =
     (case find (\<lambda>k. m k = None) (map fst kts) of
        Some k \<Rightarrow> Inl (NotFoundInMetric k)
      | None \<Rightarrow> Inr (acc @ map (\<lambda>k. the (m k)) (map fst kts)))"
  by (induction kts arbitrary: acc) (auto split: option.splits)

lemma dollar_markers_alt:
  "dollar_markers n = map (\<lambda>k. ''$'' @ Itoa (0 + int k)) [1..<Suc n]"
  by (simp add: dollar_markers_def)

lemma generateQuery_template:
  assumes "parts_ok t0 kts"
  shows "generateQuery p (template t0 kts) m =
    (case find (\<lambda>k. m k = None) (map fst kts) of
       Some k \<Rightarrow> ([], [], Some (NotFoundInMetric k))
     | None \<Rightarrow>
        (if Driver p = ''pgx'' then weave t0 (zip (dollar_markers (length kts)) (map snd kts))
         else weave t0 (map (\<lambda>(k, t). (''?'', t)) kts),
         map (\<lambda>k. the (m k)) (map fst kts), None))"
  unfolding generateQuery_def Let_def FindAllString_template [OF assms]
    collect_values_template pgx_template [OF assms] ReplaceAllString_def
    const_template [OF assms] dollar_markers_alt
  by (simp split: option.split)

lemma find_present:
  "\<forall>k\<in>set ks. k \<in> dom m \<Longrightarrow> find (\<lambda>k. m k = None) ks = None"
  by (auto simp: find_None_iff)

lemma map_Some_the:
  "\<forall>k\<in>set ks. k \<in> dom m \<Longrightarrow> map Some (map (\<lambda>k. the (m k)) ks) = map m ks"
  by (induction ks) auto

lemma find_first:
  "\<forall>k\<in>set before. \<not> P k \<Longrightarrow> P key \<Longrightarrow> find P (before @ key # after) = Some key"
  by (induction before) auto

lemma pgx_placeholder_eq: "pgx_placeholder s i = (''$'' @ Itoa (i + 1), i + 1)"
  by (simp add: pgx_placeholder_def Let_def)

lemma pgx_counter:
  "snd (ReplaceAllStringFunc s pgx_placeholder i) = i + int (length (FindAllString s))"
proof (induction s pgx_placeholder i rule: ReplaceAllStringFunc.induct)
  case (1 st)
  show ?case by simp
next
  case (2 c cs st)
  show ?case
  proof (cases "c = CHR '':''")
    case True
    have r: "(''$'' @ Itoa (st + 1), st + 1) = pgx_placeholder (c # takeWhile is_ident cs) st"
      by (simp add: pgx_placeholder_eq)
    from 2(1) [OF True r] True r [symmetric] show ?thesis
      by (auto split: prod.split)
  next
    case False
    with 2(2) show ?thesis by (auto split: prod.split)
  qed
qed

lemma FindAllString_bare:
  "ends_key post \<Longrightarrow> FindAllString (CHR '':'' # post) = [CHR '':''] # FindAllString post"
  by (simp add: ends_key_takeWhile ends_key_dropWhile)

lemma ReplaceAllStringFunc_bare:
  "ends_key post \<Longrightarrow>
   fst (ReplaceAllStringFunc (CHR '':'' # post) repl st) =
     fst (repl [CHR '':''] st) @ fst (ReplaceAllStringFunc post repl (snd (repl [CHR '':''] st)))"
  by (simp add: ends_key_takeWhile ends_key_dropWhile split: prod.split)

lemma ReplaceAllStringFunc_split_fst:
  "fst (ReplaceAllStringFunc (pre @ CHR '':'' # post) repl st) =
     fst (ReplaceAllStringFunc pre repl st) @
     fst (ReplaceAllStringFunc (CHR '':'' # post) repl (snd (ReplaceAllStringFunc pre repl st)))"
  by (simp add: ReplaceAllStringFunc_split split: prod.split)

lemma generateQuery_find:
  "generateQuery p sql m =
     (case find (\<lambda>mt. m (drop 1 mt) = None) (FindAllString sql) of
        Some mt \<Rightarrow> ([], [], Some (NotFoundInMetric (drop 1 mt)))
      | None \<Rightarrow>
         (if Driver p = ''pgx'' then fst (ReplaceAllStringFunc sql pgx_placeholder 0)
          else ReplaceAllString sql ''?'',
          map (\<lambda>mt. the (m (drop 1 mt))) (FindAllString sql), None))"
  by (simp add: generateQuery_def collect_values_find split: option.split)

section \<open>Properties of the compiled statement\<close>

text \<open>
  C1: when the mapping has every key of the template, \<open>generateQuery\<close> succeeds and returns
  one argument for each placeholder, the \<open>i\<close>-th argument being the value of the key of
  the \<open>i\<close>-th placeholder from the left; two placeholders with the same key give equal
  arguments. Every template has parts that satisfy \<open>parts_ok\<close> (lemma
  \<open>template_parts_exist\<close>), so the statement is about every template.
\<close>

theorem generateQuery_arguments:
  assumes "parts_ok t0 kts" and "sql = template t0 kts"
    and "\<forall>key\<in>set (map fst kts). key \<in> dom valuesMap"
    and "generateQuery p sql valuesMap = (q, args, err)"
  shows "err = None \<and> length args = length kts
    \<and> map Some args = map (\<lambda>(key, t). valuesMap key) kts
    \<and> (\<forall>i j. i < length kts \<and> j < length kts \<and> fst (kts ! i) = fst (kts ! j)
          \<longrightarrow> args ! i = args ! j)"
proof -
  have "generateQuery p sql valuesMap =
     (if Driver p = ''pgx'' then weave t0 (zip (dollar_markers (length kts)) (map snd kts))
      else weave t0 (map (\<lambda>(k, t). (''?'', t)) kts),
      map (\<lambda>k. the (valuesMap k)) (map fst kts), None)"
    unfolding assms(2) generateQuery_template [OF assms(1)] find_present [OF assms(3)]
    by simp
  with assms(4) have e: "err = None" and a: "args = map (\<lambda>k. the (valuesMap k)) (map fst kts)"
    by simp_all
  have "map Some args = map valuesMap (map fst kts)"
    unfolding a by (rule map_Some_the [OF assms(3)])
  also have "\<dots> = map (\<lambda>(key, t). valuesMap key) kts"
    by (simp add: case_prod_unfold comp_def)
  finally have m: "map Some args = map (\<lambda>(key, t). valuesMap key) kts" .
  have dup: "args ! i = args ! j"
    if "i < length kts \<and> j < length kts \<and> fst (kts ! i) = fst (kts ! j)" for i j
    using that unfolding a by simp
  from e a m dup show ?thesis by simp
qed

theorem generateQuery_arguments_witness:
  "parts_ok ''UPDATE '' [(''metric'', '' SET name=''), (''name'', [])]
   \<and> ''UPDATE :metric SET name=:name'' =
       template ''UPDATE '' [(''metric'', '' SET name=''), (''name'', [])]
   \<and> generateQuery (newSQL\<lparr>Driver := ''pgx''\<rparr>) ''UPDATE :metric SET name=:name''
         [''name'' \<mapsto> VString ''telegraf'', ''metric'' \<mapsto> VString ''users'',
          ''unused'' \<mapsto> VString ''unused'']
       = (''UPDATE $1 SET name=$2'', [VString ''users'', VString ''telegraf''], None)
   \<and> map Some [VString ''users'', VString ''telegraf''] =
       map (\<lambda>(key, t). [''name'' \<mapsto> VString ''telegraf'', ''metric'' \<mapsto> VString ''users'',
          ''unused'' \<mapsto> VString ''unused''] key) [(''metric'', '' SET name=''), (''name'', [])]"
proof -
  let ?kts = "[(''metric'', '' SET name=''), (''name'', [])]"
  let ?m = "[''name'' \<mapsto> VString ''telegraf'', ''metric'' \<mapsto> VString ''users'',
          ''unused'' \<mapsto> VString ''unused'']"
  have ok: "parts_ok ''UPDATE '' ?kts"
    by code_simp
  have tpl: "''UPDATE :metric SET name=:name'' = template ''UPDATE '' ?kts"
    by code_simp
  have keys: "\<forall>key\<in>set (map fst ?kts). key \<in> dom ?m"
    by simp
  have run: "generateQuery (newSQL\<lparr>Driver := ''pgx''\<rparr>) ''UPDATE :metric SET name=:name'' ?m
       = (''UPDATE $1 SET name=$2'', [VString ''users'', VString ''telegraf''], None)"
    by code_simp
  from generateQuery_arguments [OF ok tpl keys run] ok tpl run show ?thesis
    by simp
qed

text \<open>
  C2: when the mapping has every key of the template, the returned statement is the
  template with its \<open>n\<close>-th placeholder replaced by \<open>$n\<close> for the driver \<open>pgx\<close>, and with
  every placeholder replaced by \<open>?\<close> for any other driver; the texts around the
  placeholders are kept as they are.
\<close>

theorem generateQuery_rewrites:
  assumes "parts_ok t0 kts" and "sql = template t0 kts"
    and "\<forall>key\<in>set (map fst kts). key \<in> dom valuesMap"
    and "generateQuery p sql valuesMap = (q, args, err)"
  shows "q = (if Driver p = ''pgx''
              then weave t0 (zip (dollar_markers (length kts)) (map snd kts))
              else weave t0 (map (\<lambda>(key, t). (''?'', t)) kts))"
proof -
  have "generateQuery p sql valuesMap =
     (if Driver p = ''pgx'' then weave t0 (zip (dollar_markers (length kts)) (map snd kts))
      else weave t0 (map (\<lambda>(k, t). (''?'', t)) kts),
      map (\<lambda>k. the (valuesMap k)) (map fst kts), None)"
    unfolding assms(2) generateQuery_template [OF assms(1)] find_present [OF assms(3)]
    by simp
  with assms(4) show ?thesis by simp
qed

theorem generateQuery_rewrites_witness:
  "generateQuery (newSQL\<lparr>Driver := ''pgx''\<rparr>) ''UPDATE :metric SET name=:name''
         [''name'' \<mapsto> VString ''telegraf'', ''metric'' \<mapsto> VString ''users'',
          ''unused'' \<mapsto> VString ''unused'']
       = (''UPDATE $1 SET name=$2'', [VString ''users'', VString ''telegraf''], None)
   \<and> ''UPDATE $1 SET name=$2'' =
       weave ''UPDATE '' (zip (dollar_markers 2) ['' SET name='', []])
   \<and> generateQuery (newSQL\<lparr>Driver := ''mysql''\<rparr>) ''INSERT INTO t VALUES(:a,:a)''
         [''a'' \<mapsto> VInt64 5]
       = (''INSERT INTO t VALUES(?,?)'', [VInt64 5, VInt64 5], None)
   \<and> ''INSERT INTO t VALUES(?,?)'' =
       weave ''INSERT INTO t VALUES('' [(''?'', '',''), (''?'', '')'')]"
proof -
  let ?kts = "[(''metric'', '' SET name=''), (''name'', [])]"
  let ?m = "[''name'' \<mapsto> VString ''telegraf'', ''metric'' \<mapsto> VString ''users'',
          ''unused'' \<mapsto> VString ''unused'']"
  have ok: "parts_ok ''UPDATE '' ?kts"
    by code_simp
  have tpl: "''UPDATE :metric SET name=:name'' = template ''UPDATE '' ?kts"
    by code_simp
  have keys: "\<forall>key\<in>set (map fst ?kts). key \<in> dom ?m"
    by simp
  have run: "generateQuery (newSQL\<lparr>Driver := ''pgx''\<rparr>) ''UPDATE :metric SET name=:name'' ?m
       = (''UPDATE $1 SET name=$2'', [VString ''users'', VString ''telegraf''], None)"
    by code_simp
  let ?kts' = "[(''a'', '',''), (''a'', '')'')]"
  have ok': "parts_ok ''INSERT INTO t VALUES('' ?kts'"
    by code_simp
  have tpl': "''INSERT INTO t VALUES(:a,:a)'' = template ''INSERT INTO t VALUES('' ?kts'"
    by code_simp
  have keys': "\<forall>key\<in>set (map fst ?kts'). key \<in> dom [''a'' \<mapsto> VInt64 5]"
    by simp
  have run': "generateQuery (newSQL\<lparr>Driver := ''mysql''\<rparr>) ''INSERT INTO t VALUES(:a,:a)''
         [''a'' \<mapsto> VInt64 5]
       = (''INSERT INTO t VALUES(?,?)'', [VInt64 5, VInt64 5], None)"
    by code_simp
  have two: "length ?kts = 2" by simp
  have my: "Driver (newSQL\<lparr>Driver := ''mysql''\<rparr>) \<noteq> ''pgx''" by simp
  have a: "''UPDATE $1 SET name=$2'' = weave ''UPDATE '' (zip (dollar_markers 2) ['' SET name='', []])"
    using generateQuery_rewrites [OF ok tpl keys run] unfolding two by simp
  have b: "''INSERT INTO t VALUES(?,?)'' =
       weave ''INSERT INTO t VALUES('' [(''?'', '',''), (''?'', '')'')]"
    using generateQuery_rewrites [OF ok' tpl' keys' run'] my by simp
  from run a run' b show ?thesis by (intro conjI)
qed

text \<open>
  C3: \<open>generateQuery\<close> fails exactly when the key of some placeholder is not in the
  mapping, so keys that no placeholder names never make it fail; the error names the first
  such key from the left, and it comes with the empty statement and no arguments.
\<close>

theorem generateQuery_fails_iff:
  assumes "parts_ok t0 kts" and "sql = template t0 kts"
  shows "((\<exists>e. snd (snd (generateQuery p sql valuesMap)) = Some e)
            \<longleftrightarrow> (\<exists>key\<in>set (map fst kts). valuesMap key = None))
    \<and> (\<forall>before key t after.
          kts = before @ (key, t) # after
          \<and> (\<forall>k\<in>set (map fst before). valuesMap k \<noteq> None) \<and> valuesMap key = None
          \<longrightarrow> generateQuery p sql valuesMap = ([], [], Some (NotFoundInMetric key)))"
proof (intro conjI allI impI)
  show "(\<exists>e. snd (snd (generateQuery p sql valuesMap)) = Some e)
            \<longleftrightarrow> (\<exists>key\<in>set (map fst kts). valuesMap key = None)"
  proof (cases "find (\<lambda>k. valuesMap k = None) (map fst kts)")
    case None
    have "snd (snd (generateQuery p sql valuesMap)) = None"
      unfolding assms(2) generateQuery_template [OF assms(1)] None by simp
    moreover have "\<not> (\<exists>key\<in>set (map fst kts). valuesMap key = None)"
      using None by (simp add: find_None_iff)
    ultimately show ?thesis by simp
  next
    case (Some k)
    have "snd (snd (generateQuery p sql valuesMap)) = Some (NotFoundInMetric k)"
      unfolding assms(2) generateQuery_template [OF assms(1)] Some by simp
    moreover have "\<exists>key\<in>set (map fst kts). valuesMap key = None"
      using Some by (auto simp: find_Some_iff)
    ultimately show ?thesis by simp
  qed
next
  fix before key t after
  assume h: "kts = before @ (key, t) # after
          \<and> (\<forall>k\<in>set (map fst before). valuesMap k \<noteq> None) \<and> valuesMap key = None"
  then have "find (\<lambda>k. valuesMap k = None) (map fst kts) = Some key"
    using find_first [of "map fst before" "\<lambda>k. valuesMap k = None" key "map fst after"]
    by simp
  then show "generateQuery p sql valuesMap = ([], [], Some (NotFoundInMetric key))"
    unfolding assms(2) generateQuery_template [OF assms(1)] by simp
qed

theorem generateQuery_fails_iff_witness:
  "parts_ok ''UPDATE '' [(''metric'', '' SET name=''), (''name'', [])]
   \<and> ''UPDATE :metric SET name=:name'' =
       template ''UPDATE '' [(''metric'', '' SET name=''), (''name'', [])]
   \<and> generateQuery (newSQL\<lparr>Driver := ''pgx''\<rparr>) ''UPDATE :metric SET name=:name''
         [''metric'' \<mapsto> VString ''users'', ''unused'' \<mapsto> VString ''unused'']
       = ([], [], Some (NotFoundInMetric ''name''))"
proof -
  let ?kts = "[(''metric'', '' SET name=''), (''name'', [])]"
  let ?m = "[''metric'' \<mapsto> VString ''users'', ''unused'' \<mapsto> VString ''unused'']"
  have ok: "parts_ok ''UPDATE '' ?kts"
    by code_simp
  have tpl: "''UPDATE :metric SET name=:name'' = template ''UPDATE '' ?kts"
    by code_simp
  have h: "?kts = [(''metric'', '' SET name='')] @ (''name'', []) # []
     \<and> (\<forall>k\<in>set (map fst [(''metric'', '' SET name='')]). ?m k \<noteq> None) \<and> ?m ''name'' = None"
    by simp
  note th = generateQuery_fails_iff [OF ok tpl, of "newSQL\<lparr>Driver := ''pgx''\<rparr>" ?m,
      THEN conjunct2, rule_format, OF h]
  from ok tpl th show ?thesis by (intro conjI)
qed

lemma collect_values_st_reads:
  "collect_values_st matchs acc w = (collect_values (values_map w) matchs acc, w)"
  by (induction matchs arbitrary: acc)
     (simp_all add: map_index_def Let_def split: option.split)

lemma generateQuery_st_reads:
  "generateQuery_st sql w = (generateQuery (plugin w) sql (values_map w), w)"
  by (simp add: generateQuery_st_def generateQuery_def collect_values_st_reads read_Driver_def
      split: sum.split)

lemma generateQuery_Driver:
  "Driver p = Driver p' \<Longrightarrow> generateQuery p sql valuesMap = generateQuery p' sql valuesMap"
  by (simp add: generateQuery_def split: sum.split)

text \<open>
  C8: an invocation of \<open>generateQuery\<close> leaves the state as it found it: the plugin with
  its templates, the value mapping, the log and the database. Its result is the same in
  any two states that have the same driver and the same value mapping, whatever the rest
  of them, and a second invocation after the first returns what the first returned.
\<close>

theorem generateQuery_pure:
  "snd (generateQuery_st sql w) = w
   \<and> (Driver (plugin w) = Driver (plugin w') \<and> values_map w = values_map w'
        \<longrightarrow> fst (generateQuery_st sql w) = fst (generateQuery_st sql w'))
   \<and> generateQuery_st sql (snd (generateQuery_st sql w)) = generateQuery_st sql w"
proof (intro conjI impI)
  show frame: "snd (generateQuery_st sql w) = w"
    by (simp add: generateQuery_st_reads)
  show "fst (generateQuery_st sql w) = fst (generateQuery_st sql w')"
    if "Driver (plugin w) = Driver (plugin w') \<and> values_map w = values_map w'"
    using that generateQuery_Driver [of "plugin w" "plugin w'" sql "values_map w"]
    by (simp add: generateQuery_st_reads)
  show "generateQuery_st sql (snd (generateQuery_st sql w)) = generateQuery_st sql w"
    by (simp only: frame)
qed

theorem generateQuery_pure_witness:
  "Driver (plugin \<lparr>plugin = newSQL, values_map = [''a'' \<mapsto> VBool True], logged = [],
                   executed = []\<rparr>)
     = Driver (plugin \<lparr>plugin = newSQL\<lparr>Queries := [''SELECT :a''], InitSQL := ''x''\<rparr>,
                        values_map = [''a'' \<mapsto> VBool True],
                        logged = [Errorf ''unknown conversion style: %s'' [VString ''x'']],
                        executed = [(''SELECT 1'', [])]\<rparr>)
   \<and> fst (generateQuery_st ''SELECT :a''
           \<lparr>plugin = newSQL, values_map = [''a'' \<mapsto> VBool True], logged = [],
            executed = []\<rparr>)
     = fst (generateQuery_st ''SELECT :a''
           \<lparr>plugin = newSQL\<lparr>Queries := [''SELECT :a''], InitSQL := ''x''\<rparr>,
            values_map = [''a'' \<mapsto> VBool True],
            logged = [Errorf ''unknown conversion style: %s'' [VString ''x'']],
            executed = [(''SELECT 1'', [])]\<rparr>)
   \<and> generateQuery_st ''SELECT :a''
         \<lparr>plugin = newSQL, values_map = [''a'' \<mapsto> VBool True], logged = [], executed = []\<rparr>
     = ((''SELECT ?'', [VBool True], None),
        \<lparr>plugin = newSQL, values_map = [''a'' \<mapsto> VBool True], logged = [], executed = []\<rparr>)"
proof -
  let ?w = "\<lparr>plugin = newSQL, values_map = [''a'' \<mapsto> VBool True], logged = [],
             executed = []\<rparr>"
  let ?w' = "\<lparr>plugin = newSQL\<lparr>Queries := [''SELECT :a''], InitSQL := ''x''\<rparr>,
            values_map = [''a'' \<mapsto> VBool True],
            logged = [Errorf ''unknown conversion style: %s'' [VString ''x'']],
            executed = [(''SELECT 1'', [])]\<rparr>"
  note th = generateQuery_pure [of "''SELECT :a''" ?w ?w']
  have h: "Driver (plugin ?w) = Driver (plugin ?w') \<and> values_map ?w = values_map ?w'"
    by simp
  have same: "fst (generateQuery_st ''SELECT :a'' ?w) = fst (generateQuery_st ''SELECT :a'' ?w')"
    by (rule th [THEN conjunct2, THEN conjunct1, rule_format, OF h])
  have r: "fst (generateQuery_st ''SELECT :a'' ?w) = (''SELECT ?'', [VBool True], None)"
    by code_simp
  have "generateQuery_st ''SELECT :a'' ?w = ((''SELECT ?'', [VBool True], None), ?w)"
    using th [THEN conjunct1] r by (simp add: prod_eq_iff)
  with h same show ?thesis by simp
qed

text \<open>
  C9, as stated: when a colon of the template is not followed by a character of the class
  and the mapping has no entry for the empty key, \<open>generateQuery\<close> fails with the error
  that names the empty key. In \<open>:a :\<close> the last colon is such a colon and the empty
  mapping has no entry for the empty key, but the error names \<open>a\<close>, the key that is
  missed first.
\<close>

theorem bare_colon_error_counterexample:
  "'':a :'' = '':a '' @ CHR '':'' # [] \<and> ends_key []
   \<and> (Map.empty :: string \<rightharpoonup> gvalue) [] = None
   \<and> generateQuery newSQL '':a :'' Map.empty = ([], [], Some (NotFoundInMetric ''a''))
   \<and> generateQuery newSQL '':a :'' Map.empty \<noteq> ([], [], Some (NotFoundInMetric []))"
  by code_simp

text \<open>
  C9, amended: a colon that is not followed by a character of the class is a placeholder
  with the empty key. When the mapping has no entry for the empty key, \<open>generateQuery\<close>
  fails, and the error names the empty key if the keys of all placeholders before the colon
  are in the mapping. When the mapping has the empty key and the keys of all other
  placeholders, the colon is replaced by the marker of its position and the value of the
  empty key is the argument at that position.
\<close>

theorem bare_colon_placeholder:
  assumes "sql = pre @ CHR '':'' # post" and "ends_key post"
  shows "FindAllString sql = FindAllString pre @ [[CHR '':'']] @ FindAllString post
    \<and> (valuesMap [] = None \<longrightarrow>
          (\<exists>key. generateQuery p sql valuesMap = ([], [], Some (NotFoundInMetric key))))
    \<and> (valuesMap [] = None
          \<and> list_all (\<lambda>mt. valuesMap (drop 1 mt) \<noteq> None) (FindAllString pre) \<longrightarrow>
          generateQuery p sql valuesMap = ([], [], Some (NotFoundInMetric [])))
    \<and> (\<forall>v. valuesMap [] = Some v
          \<and> list_all (\<lambda>mt. valuesMap (drop 1 mt) \<noteq> None) (FindAllString pre @ FindAllString post) \<longrightarrow>
          generateQuery p sql valuesMap =
            (if Driver p = ''pgx''
             then fst (ReplaceAllStringFunc pre pgx_placeholder 0)
                  @ ''$'' @ Itoa (int (length (FindAllString pre)) + 1)
                  @ fst (ReplaceAllStringFunc post pgx_placeholder
                           (int (length (FindAllString pre)) + 1))
             else ReplaceAllString pre ''?'' @ ''?'' @ ReplaceAllString post ''?'',
             map (\<lambda>mt. the (valuesMap (drop 1 mt))) (FindAllString pre) @ [v]
               @ map (\<lambda>mt. the (valuesMap (drop 1 mt))) (FindAllString post),
             None))"
proof -
  let ?P = "\<lambda>mt. valuesMap (drop 1 mt) = None"
  have ms: "FindAllString sql = FindAllString pre @ [[CHR '':'']] @ FindAllString post"
    unfolding assms(1) FindAllString_split FindAllString_bare [OF assms(2)] by simp
  have fails: "\<exists>key. generateQuery p sql valuesMap = ([], [], Some (NotFoundInMetric key))"
    if "valuesMap [] = None"
  proof (cases "find ?P (FindAllString sql)")
    case None
    have mem: "[CHR '':''] \<in> set (FindAllString sql)"
      unfolding ms by simp
    from None have "\<forall>x\<in>set (FindAllString sql). \<not> ?P x"
      by (simp add: find_None_iff)
    with mem have "\<not> ?P [CHR '':'']" by blast
    with that show ?thesis by simp
  next
    case (Some mt)
    then show ?thesis unfolding generateQuery_find by simp
  qed
  have first: "generateQuery p sql valuesMap = ([], [], Some (NotFoundInMetric []))"
    if "valuesMap [] = None \<and> list_all (\<lambda>mt. valuesMap (drop 1 mt) \<noteq> None) (FindAllString pre)"
  proof -
    have "find ?P (FindAllString pre @ [CHR '':''] # FindAllString post) = Some [CHR '':'']"
      using that by (intro find_first) (simp_all add: list_all_iff)
    then show ?thesis unfolding generateQuery_find ms by simp
  qed
  have ok: "generateQuery p sql valuesMap =
            (if Driver p = ''pgx''
             then fst (ReplaceAllStringFunc pre pgx_placeholder 0)
                  @ ''$'' @ Itoa (int (length (FindAllString pre)) + 1)
                  @ fst (ReplaceAllStringFunc post pgx_placeholder
                           (int (length (FindAllString pre)) + 1))
             else ReplaceAllString pre ''?'' @ ''?'' @ ReplaceAllString post ''?'',
             map (\<lambda>mt. the (valuesMap (drop 1 mt))) (FindAllString pre) @ [v]
               @ map (\<lambda>mt. the (valuesMap (drop 1 mt))) (FindAllString post),
             None)"
    if h: "valuesMap [] = Some v
          \<and> list_all (\<lambda>mt. valuesMap (drop 1 mt) \<noteq> None) (FindAllString pre @ FindAllString post)"
    for v
  proof -
    have none: "find ?P (FindAllString sql) = None"
      unfolding ms using h by (auto simp: find_None_iff list_all_iff)
    have pgx: "fst (ReplaceAllStringFunc sql pgx_placeholder 0) =
        fst (ReplaceAllStringFunc pre pgx_placeholder 0)
          @ ''$'' @ Itoa (int (length (FindAllString pre)) + 1)
          @ fst (ReplaceAllStringFunc post pgx_placeholder (int (length (FindAllString pre)) + 1))"
      unfolding assms(1) ReplaceAllStringFunc_split_fst
        ReplaceAllStringFunc_bare [OF assms(2)] pgx_counter
      by (simp add: pgx_placeholder_eq)
    have other: "ReplaceAllString sql ''?'' =
        ReplaceAllString pre ''?'' @ ''?'' @ ReplaceAllString post ''?''"
      unfolding assms(1) ReplaceAllString_def ReplaceAllStringFunc_split_fst
        ReplaceAllStringFunc_bare [OF assms(2)]
      by simp
    have vals: "map (\<lambda>mt. the (valuesMap (drop 1 mt))) (FindAllString sql) =
        map (\<lambda>mt. the (valuesMap (drop 1 mt))) (FindAllString pre) @ [v]
          @ map (\<lambda>mt. the (valuesMap (drop 1 mt))) (FindAllString post)"
      unfolding ms using h by simp
    show ?thesis
      unfolding generateQuery_find none pgx other vals by simp
  qed
  from ms fails first ok show ?thesis by blast
qed

theorem bare_colon_placeholder_witness:
  "''SELECT : FROM t'' = ''SELECT '' @ CHR '':'' # '' FROM t'' \<and> ends_key '' FROM t''
   \<and> generateQuery newSQL ''SELECT : FROM t'' [[] \<mapsto> VInt64 7] = (''SELECT ? FROM t'', [VInt64 7], None)
   \<and> generateQuery newSQL ''SELECT : FROM t'' Map.empty = ([], [], Some (NotFoundInMetric []))"
proof -
  have s: "''SELECT : FROM t'' = ''SELECT '' @ CHR '':'' # '' FROM t''" by simp
  have e: "ends_key '' FROM t''" by code_simp
  have pre: "FindAllString ''SELECT '' = []" by code_simp
  have post: "FindAllString '' FROM t'' = []" by code_simp
  have r1: "ReplaceAllString ''SELECT '' ''?'' = ''SELECT ''" by code_simp
  have r2: "ReplaceAllString '' FROM t'' ''?'' = '' FROM t''" by code_simp
  have d: "Driver newSQL \<noteq> ''pgx''" by code_simp
  note th = bare_colon_placeholder [OF s e]
  note c3 = th [of Map.empty newSQL, THEN conjunct2, THEN conjunct2, THEN conjunct1, rule_format]
  note c4 = th [of "[[] \<mapsto> VInt64 7]" newSQL, THEN conjunct2, THEN conjunct2, THEN conjunct2,
      rule_format, of "VInt64 7"]
  have h4: "[[] \<mapsto> VInt64 7] [] = Some (VInt64 7)
      \<and> list_all (\<lambda>mt. [[] \<mapsto> VInt64 7] (drop 1 mt) \<noteq> None)
           (FindAllString ''SELECT '' @ FindAllString '' FROM t'')"
    unfolding pre post by simp
  have h3: "(Map.empty :: string \<rightharpoonup> gvalue) [] = None
      \<and> list_all (\<lambda>mt. (Map.empty :: string \<rightharpoonup> gvalue) (drop 1 mt) \<noteq> None)
           (FindAllString ''SELECT '')"
    unfolding pre by simp
  have a: "generateQuery newSQL ''SELECT : FROM t'' [[] \<mapsto> VInt64 7]
          = (''SELECT ? FROM t'', [VInt64 7], None)"
    using c4 [OF h4] d unfolding pre post r1 r2 by simp
  have b: "generateQuery newSQL ''SELECT : FROM t'' Map.empty
          = ([], [], Some (NotFoundInMetric []))"
    by (rule c3 [OF h3])
  from s e a b show ?thesis by (intro conjI)
qed

end
